theory Spec2Isabelle
  imports Complex_Main "HOL-Library.AList"
begin

section \<open>JSON values and Python truthiness\<close>

text \<open>
  Every endpoint of \<^verbatim>\<open>main.py\<close> returns a JSON value, and the statistic cache stores
  JSON values (a dict of counts, a list of dicts). Python's \<^verbatim>\<open>None\<close> is \<open>JNull\<close>.
\<close>

datatype json =
    JNull
  | JBool bool
  | JInt int
  | JFloat real
  | JStr string
  | JList "json list"
  | JDict "(string \<times> json) list"

text \<open>What \<^verbatim>\<open>not v\<close> tests: \<^verbatim>\<open>None\<close>, zero and empty containers are false.\<close>

fun truthy :: "json \<Rightarrow> bool" where
  "truthy JNull = False"
| "truthy (JBool b) = b"
| "truthy (JInt i) = (i \<noteq> 0)"
| "truthy (JFloat x) = (x \<noteq> 0)"
| "truthy (JStr s) = (s \<noteq> [])"
| "truthy (JList xs) = (xs \<noteq> [])"
| "truthy (JDict kvs) = (kvs \<noteq> [])"

text \<open>The acknowledgement \<^verbatim>\<open>{"message": "success"}\<close> of the reporting endpoints.\<close>

definition success :: json where
  "success = JDict [(''message'', JStr ''success'')]"

section \<open>Request payloads\<close>

text \<open>
  The pydantic models \<^verbatim>\<open>PluginStatistic\<close> and \<^verbatim>\<open>SubscribeStatistic\<close>. Every field
  of a subscription report is optional. The rating \<open>vote\<close> is only stored and handed
  back, never computed with, so a real number stands for the float.
\<close>

record PluginStatistic =
  plugin_id :: string

record SubscribeStatistic =
  name :: "string option"
  year :: "string option"
  type :: "string option"
  tmdbid :: "int option"
  imdbid :: "string option"
  tvdbid :: "int option"
  doubanid :: "string option"
  season :: "int option"
  poster :: "string option"
  backdrop :: "string option"
  vote :: "real option"
  description :: "string option"

section \<open>Persisted rows and the database session\<close>

text \<open>
  The rows of the two tables. A plugin row is the payload plus its count. A subscription
  row is built by \<^verbatim>\<open>SubscribeStatistics(**subscribe.dict(), count=1)\<close>: the payload's
  fields, the count, the primary key \<^verbatim>\<open>id\<close> (here \<open>sid\<close>) that \<^verbatim>\<open>subscribe_done\<close>
  passes to \<^verbatim>\<open>delete\<close>, and \<^verbatim>\<open>bangumiid\<close>, which \<^verbatim>\<open>subscribe_statistic\<close> reads and
  no payload carries.
\<close>

record PluginStatistics = PluginStatistic +
  count :: int

record SubscribeStatistics = SubscribeStatistic +
  sid :: nat
  bangumiid :: "int option"
  count :: int

text \<open>
  The state behind a \<^verbatim>\<open>Session\<close>: both tables in insertion order and the next
  primary key of the subscription table.
\<close>

record db =
  plugins :: "PluginStatistics list"
  subscribes :: "SubscribeStatistics list"
  next_sid :: nat

definition init_db :: db where
  "init_db = \<lparr>plugins = [], subscribes = [], next_sid = 1\<rparr>"

subsection \<open>The plugin table\<close>

text \<open>
  Modelled from the spec: the methods \<^verbatim>\<open>read\<close>, \<^verbatim>\<open>create\<close>, \<^verbatim>\<open>update\<close> and
  \<^verbatim>\<open>list\<close> of \<^verbatim>\<open>PluginStatistics\<close> live in \<^verbatim>\<open>models.py\<close>, which is not among the
  sources. The spec describes the persistence collaborator as a keyed record store with
  create, point lookup by identity and update by identity, \<open>pluginId\<close> being the unique
  key of a plugin row.
\<close>

definition PluginStatistics_read :: "db \<Rightarrow> string \<Rightarrow> PluginStatistics option" where
  "PluginStatistics_read d pid = find (\<lambda>r. plugin_id r = pid) (plugins d)"

definition PluginStatistics_create :: "PluginStatistics \<Rightarrow> db \<Rightarrow> db" where
  "PluginStatistics_create plugin d = d\<lparr>plugins := plugins d @ [plugin]\<rparr>"

text \<open>\<^verbatim>\<open>plugin.update(db, {"count": v})\<close>: only the count of the row with that key is written.\<close>

definition PluginStatistics_update :: "PluginStatistics \<Rightarrow> db \<Rightarrow> int \<Rightarrow> db" where
  "PluginStatistics_update plugin d v =
     d\<lparr>plugins := map (\<lambda>r. if plugin_id r = plugin_id plugin
                              then r\<lparr>PluginStatistics.count := v\<rparr> else r) (plugins d)\<rparr>"

definition PluginStatistics_list :: "db \<Rightarrow> PluginStatistics list" where
  "PluginStatistics_list d = plugins d"

subsection \<open>The subscription table\<close>

text \<open>
  The value of \<^verbatim>\<open>subscribe.tmdbid or subscribe.doubanid\<close>: Python's \<^verbatim>\<open>or\<close> yields its
  first operand when that is truthy (an integer other than 0) and its second operand
  otherwise, whatever that is: \<^verbatim>\<open>None\<close>, or a string, the empty one included.
\<close>

datatype media_id = MNone | MInt int | MStr string

definition py_or :: "int option \<Rightarrow> string option \<Rightarrow> media_id" where
  "py_or t d =
     (case t of
        Some n \<Rightarrow> if n \<noteq> 0 then MInt n
                  else (case d of None \<Rightarrow> MNone | Some s \<Rightarrow> MStr s)
      | None \<Rightarrow> (case d of None \<Rightarrow> MNone | Some s \<Rightarrow> MStr s))"

text \<open>
  Modelled from the spec: the methods \<^verbatim>\<open>read\<close>, \<^verbatim>\<open>create\<close>, \<^verbatim>\<open>update\<close>,
  \<^verbatim>\<open>delete\<close> and \<^verbatim>\<open>list\<close> of \<^verbatim>\<open>SubscribeStatistics\<close> live in \<^verbatim>\<open>models.py\<close>,
  which is not among the sources. In the spec a subscription row is identified by its
  media id, the first non-empty of the numeric and the string catalog id, plus the
  optional season; the store offers create, point lookup by identity, update and delete
  of the row found, and a listing filtered by type, ordered by primary key, paginated
  with 1-indexed positive \<open>page\<close> and \<open>pageSize\<close>, failing with \<open>InvalidPagination\<close>
  otherwise.
\<close>

datatype error = InvalidPagination

definition SubscribeStatistics_read ::
    "db \<Rightarrow> media_id \<Rightarrow> int option \<Rightarrow> SubscribeStatistics option" where
  "SubscribeStatistics_read d mid s =
     find (\<lambda>r. py_or (tmdbid r) (doubanid r) = mid \<and> season r = s) (subscribes d)"

text \<open>
  \<^verbatim>\<open>SubscribeStatistics(**subscribe.dict(), count=c).create(db)\<close>: the new row takes the
  payload's fields and the count; the store assigns the primary key.
\<close>

definition SubscribeStatistics_create :: "SubscribeStatistic \<Rightarrow> int \<Rightarrow> db \<Rightarrow> db" where
  "SubscribeStatistics_create subscribe c d =
     d\<lparr>subscribes := subscribes d @
          [SubscribeStatistic.extend subscribe (SubscribeStatistics.fields (next_sid d) None c)],
       next_sid := Suc (next_sid d)\<rparr>"

text \<open>\<^verbatim>\<open>sub.update(db, {"count": v})\<close>: only the count of the row with that primary key is written.\<close>

definition SubscribeStatistics_update :: "SubscribeStatistics \<Rightarrow> db \<Rightarrow> int \<Rightarrow> db" where
  "SubscribeStatistics_update sub d v =
     d\<lparr>subscribes := map (\<lambda>r. if sid r = sid sub
                                 then r\<lparr>SubscribeStatistics.count := v\<rparr> else r) (subscribes d)\<rparr>"

definition SubscribeStatistics_delete :: "db \<Rightarrow> nat \<Rightarrow> db" where
  "SubscribeStatistics_delete d i = d\<lparr>subscribes := filter (\<lambda>r. sid r \<noteq> i) (subscribes d)\<rparr>"

definition SubscribeStatistics_list ::
    "db \<Rightarrow> string \<Rightarrow> int \<Rightarrow> int \<Rightarrow> error + SubscribeStatistics list" where
  "SubscribeStatistics_list d stype page cnt =
     (if page \<le> 0 \<or> cnt \<le> 0 then Inl InvalidPagination
      else Inr (take (nat cnt) (drop (nat ((page - 1) * cnt))
                  (filter (\<lambda>r. type r = Some stype) (sort_key sid (subscribes d))))))"

section \<open>The reporting endpoints\<close>

text \<open>
  Each endpoint takes the session's database state and returns its JSON response with
  the state it leaves. \<^verbatim>\<open>if not plugin\<close> tests an ORM object, which is truthy, so the
  test is whether \<^verbatim>\<open>read\<close> found a row.
\<close>

definition plugin_install :: "string \<Rightarrow> db \<Rightarrow> json \<times> db" where
  "plugin_install pid d =
     (case PluginStatistics_read d pid of
        None \<Rightarrow>
          (success, PluginStatistics_create \<lparr>plugin_id = pid, PluginStatistics.count = 1\<rparr> d)
      | Some plugin \<Rightarrow>
          (success, PluginStatistics_update plugin d (PluginStatistics.count plugin + 1)))"

definition plugin_batch_install :: "PluginStatistic list \<Rightarrow> db \<Rightarrow> json \<times> db" where
  "plugin_batch_install ps d =
     (success, fold (\<lambda>plugin d'. snd (plugin_install (plugin_id plugin) d')) ps d)"

definition subscribe_add :: "SubscribeStatistic \<Rightarrow> db \<Rightarrow> json \<times> db" where
  "subscribe_add subscribe d =
     (case SubscribeStatistics_read d (py_or (tmdbid subscribe) (doubanid subscribe))
             (season subscribe) of
        None \<Rightarrow> (success, SubscribeStatistics_create subscribe 1 d)
      | Some sub \<Rightarrow>
          (success, SubscribeStatistics_update sub d (SubscribeStatistics.count sub + 1)))"

definition subscribe_done :: "SubscribeStatistic \<Rightarrow> db \<Rightarrow> json \<times> db" where
  "subscribe_done subscribe d =
     (case SubscribeStatistics_read d (py_or (tmdbid subscribe) (doubanid subscribe))
             (season subscribe) of
        None \<Rightarrow> (success, d)
      | Some sub \<Rightarrow>
          if SubscribeStatistics.count sub \<le> 1
          then (success, SubscribeStatistics_delete d (sid sub))
          else (success, SubscribeStatistics_update sub d (SubscribeStatistics.count sub - 1)))"

definition subscribe_report :: "SubscribeStatistic list \<Rightarrow> db \<Rightarrow> json \<times> db" where
  "subscribe_report ss d =
     (success, fold (\<lambda>subscribe d'. snd (subscribe_add subscribe d')) ss d)"

text \<open>
  What the store holds for one plugin and for one subscription identity: the count of
  the row that \<^verbatim>\<open>read\<close> finds, if any.
\<close>

definition plugin_count :: "db \<Rightarrow> string \<Rightarrow> int option" where
  "plugin_count d pid = map_option PluginStatistics.count (PluginStatistics_read d pid)"

definition subscribe_count :: "db \<Rightarrow> media_id \<Rightarrow> int option \<Rightarrow> int option" where
  "subscribe_count d mid s =
     map_option SubscribeStatistics.count (SubscribeStatistics_read d mid s)"

text \<open>A sequence of add and done reports, applied in order.\<close>

datatype subscribe_op = OpAdd SubscribeStatistic | OpDone SubscribeStatistic

fun apply_op :: "subscribe_op \<Rightarrow> db \<Rightarrow> db" where
  "apply_op (OpAdd subscribe) d = snd (subscribe_add subscribe d)"
| "apply_op (OpDone subscribe) d = snd (subscribe_done subscribe d)"

definition run_ops :: "subscribe_op list \<Rightarrow> db \<Rightarrow> db" where
  "run_ops ops d = fold apply_op ops d"

subsection \<open>Invariants of the subscription table\<close>

text \<open>The identity of a stored row: its media id and its season.\<close>

definition ident :: "SubscribeStatistics \<Rightarrow> media_id \<times> int option" where
  "ident r = (py_or (tmdbid r) (doubanid r), season r)"

text \<open>
  Primary keys are unique, increase in insertion order and lie below the next key;
  no two rows share an identity.
\<close>

definition wf_db :: "db \<Rightarrow> bool" where
  "wf_db d =
     (sorted (map sid (subscribes d)) \<and> distinct (map sid (subscribes d)) \<and>
      list_all (\<lambda>r. sid r < next_sid d) (subscribes d) \<and>
      distinct (map ident (subscribes d)))"

definition counts_positive :: "db \<Rightarrow> bool" where
  "counts_positive d = list_all (\<lambda>r. 1 \<le> SubscribeStatistics.count r) (subscribes d)"

text \<open>A row with its count blanked: everything the row carries besides the count.\<close>

definition attributes :: "SubscribeStatistics \<Rightarrow> SubscribeStatistics" where
  "attributes r = r\<lparr>SubscribeStatistics.count := 0\<rparr>"

section \<open>The statistic cache\<close>

text \<open>
  Modelled from the spec: \<^verbatim>\<open>Cache\<close> comes from the library \<^verbatim>\<open>cacheout\<close>, which is
  not among the sources; \<^verbatim>\<open>main.py\<close> only constructs it with \<^verbatim>\<open>maxsize=100\<close> and
  \<^verbatim>\<open>ttl=1800\<close> and calls \<^verbatim>\<open>get\<close> and \<^verbatim>\<open>set\<close>. In the spec an entry holds a key,
  a value and \<open>expiresAt\<close>, the load time plus the fixed TTL; an entry is live strictly
  before \<open>expiresAt\<close> and is never returned afterwards; storing a value gives it a fresh
  TTL; when an insertion would exceed the capacity, one existing entry is evicted first,
  the least recently used one. The entries are kept from least to most recently used.
  A \<^verbatim>\<open>get\<close> without a live entry returns \<^verbatim>\<open>None\<close>, as the endpoints' tests
  \<^verbatim>\<open>if not StatisticCache.get(key)\<close> expect.
\<close>

record cache =
  maxsize :: nat
  ttl :: int
  entries :: "(string \<times> json \<times> int) list"

definition Cache :: "nat \<Rightarrow> int \<Rightarrow> cache" where
  "Cache m t = \<lparr>maxsize = m, ttl = t, entries = []\<rparr>"

definition Cache_get :: "cache \<Rightarrow> int \<Rightarrow> string \<Rightarrow> json \<times> cache" where
  "Cache_get c now k =
     (case find (\<lambda>e. fst e = k) (entries c) of
        None \<Rightarrow> (JNull, c)
      | Some (_, v, expires_at) \<Rightarrow>
          if now < expires_at
          then (v, c\<lparr>entries := filter (\<lambda>e. fst e \<noteq> k) (entries c) @ [(k, v, expires_at)]\<rparr>)
          else (JNull, c\<lparr>entries := filter (\<lambda>e. fst e \<noteq> k) (entries c)\<rparr>))"

definition Cache_set :: "cache \<Rightarrow> int \<Rightarrow> string \<Rightarrow> json \<Rightarrow> cache" where
  "Cache_set c now k v =
     (let es = (if k \<in> fst ` set (entries c) then filter (\<lambda>e. fst e \<noteq> k) (entries c)
                else if maxsize c \<le> length (entries c) then tl (entries c)
                else entries c)
      in c\<lparr>entries := es @ [(k, v, now + ttl c)]\<rparr>)"

text \<open>The entry stored under a key, live or not, and the keys that are live at a time.\<close>

definition stored :: "cache \<Rightarrow> string \<Rightarrow> (json \<times> int) option" where
  "stored c k = map_option snd (find (\<lambda>e. fst e = k) (entries c))"

definition live_keys :: "cache \<Rightarrow> int \<Rightarrow> string list" where
  "live_keys c now = map fst (filter (\<lambda>e. now < snd (snd e)) (entries c))"

text \<open>
  What the endpoints' test \<^verbatim>\<open>if not StatisticCache.get(key)\<close> lets through to the
  cached value: a live entry whose value is truthy.
\<close>

definition served :: "cache \<Rightarrow> int \<Rightarrow> string \<Rightarrow> bool" where
  "served c now k = (case stored c k of None \<Rightarrow> False | Some (v, e) \<Rightarrow> now < e \<and> truthy v)"

text \<open>Inserting a sequence of keys, each with its value and the time of its insertion.\<close>

definition insert_all :: "(string \<times> json \<times> int) list \<Rightarrow> cache \<Rightarrow> cache" where
  "insert_all ins c = fold (\<lambda>(k, v, t) c'. Cache_set c' t k v) ins c"

text \<open>The entry that an insertion at a given time stores: the expiry is that time plus the TTL.\<close>

definition stamp :: "int \<Rightarrow> string \<times> json \<times> int \<Rightarrow> string \<times> json \<times> int" where
  "stamp t i = (fst i, fst (snd i), snd (snd i) + t)"

text \<open>\<^verbatim>\<open>StatisticCache = Cache(maxsize=100, ttl=1800)\<close>\<close>

definition StatisticCache :: cache where
  "StatisticCache = Cache 100 1800"

section \<open>The query endpoints\<close>

text \<open>
  \<^verbatim>\<open>{sta.plugin_id: sta.count for sta in statistics}\<close>: a later row with the same key
  overwrites the value and keeps the key's place.
\<close>

definition plugin_dict :: "PluginStatistics list \<Rightarrow> json" where
  "plugin_dict statistics =
     JDict (fold (\<lambda>sta kvs. AList.update (plugin_id sta) (JInt (PluginStatistics.count sta)) kvs)
              statistics [])"

definition jstr :: "string option \<Rightarrow> json" where
  "jstr x = (case x of None \<Rightarrow> JNull | Some s \<Rightarrow> JStr s)"

definition jint :: "int option \<Rightarrow> json" where
  "jint x = (case x of None \<Rightarrow> JNull | Some i \<Rightarrow> JInt i)"

definition jfloat :: "real option \<Rightarrow> json" where
  "jfloat x = (case x of None \<Rightarrow> JNull | Some f \<Rightarrow> JFloat f)"

definition subscribe_dict :: "SubscribeStatistics \<Rightarrow> json" where
  "subscribe_dict sta =
     JDict [(''name'', jstr (name sta)),
            (''year'', jstr (year sta)),
            (''type'', jstr (type sta)),
            (''tmdbid'', jint (tmdbid sta)),
            (''imdbid'', jstr (imdbid sta)),
            (''tvdbid'', jint (tvdbid sta)),
            (''doubanid'', jstr (doubanid sta)),
            (''bangumiid'', jint (bangumiid sta)),
            (''season'', jint (season sta)),
            (''poster'', jstr (poster sta)),
            (''backdrop'', jstr (backdrop sta)),
            (''vote'', jfloat (vote sta)),
            (''description'', jstr (description sta)),
            (''count'', JInt (SubscribeStatistics.count sta))]"

text \<open>The decimal text of an integer, as an f-string formats it.\<close>

function str_nat :: "nat \<Rightarrow> string" where
  "str_nat n =
     (if n < 10 then [''0123456789'' ! n]
      else str_nat (n div 10) @ [''0123456789'' ! (n mod 10)])"
  by pat_completeness auto
termination
  by (relation "measure (\<lambda>n. n)") auto

declare str_nat.simps [simp del]

definition str_int :: "int \<Rightarrow> string" where
  "str_int i = (if i < 0 then ''-'' @ str_nat (nat (- i)) else str_nat (nat i))"

text \<open>\<^verbatim>\<open>f"subscribe_{stype}_{page}_{count}"\<close>\<close>

definition cache_key :: "string \<Rightarrow> int \<Rightarrow> int \<Rightarrow> string" where
  "cache_key stype page cnt =
     ''subscribe_'' @ stype @ ''_'' @ str_int page @ ''_'' @ str_int cnt"

text \<open>
  Reading a decimal text back: the value of a digit and of a digit string. They serve to
  show that distinct numbers have distinct texts.
\<close>

definition digit_val :: "char \<Rightarrow> nat" where
  "digit_val ch = length (takeWhile (\<lambda>x. x \<noteq> ch) ''0123456789'')"

definition nat_of_str :: "string \<Rightarrow> nat" where
  "nat_of_str s = foldl (\<lambda>n ch. 10 * n + digit_val ch) 0 s"

text \<open>
  The query endpoints read and write the cache, so they take and return its state as
  well; \<open>now\<close> is the clock of the request. A failing \<^verbatim>\<open>list\<close> raises out of the
  endpoint before anything is stored.
\<close>

definition plugin_statistic :: "db \<Rightarrow> cache \<Rightarrow> int \<Rightarrow> json \<times> cache" where
  "plugin_statistic d c now =
     (let (v, c1) = Cache_get c now ''plugin'';
          c2 = (if \<not> truthy v
                then Cache_set c1 now ''plugin'' (plugin_dict (PluginStatistics_list d))
                else c1)
      in Cache_get c2 now ''plugin'')"

definition subscribe_statistic ::
    "string \<Rightarrow> int \<Rightarrow> int \<Rightarrow> db \<Rightarrow> cache \<Rightarrow> int \<Rightarrow> (error + json) \<times> cache" where
  "subscribe_statistic stype page cnt d c now =
     (let k = cache_key stype page cnt;
          (v, c1) = Cache_get c now k
      in if \<not> truthy v
         then (case SubscribeStatistics_list d stype page cnt of
                 Inl e \<Rightarrow> (Inl e, c1)
               | Inr statistics \<Rightarrow>
                   (let c2 = Cache_set c1 now k (JList (map subscribe_dict statistics));
                        (r, c3) = Cache_get c2 now k
                    in (Inr r, c3)))
         else (let (r, c3) = Cache_get c1 now k in (Inr r, c3)))"

text \<open>
  No entry sits under the key of a query with a non-positive page or page size. The
  cache of a fresh process has the property, and the query endpoints keep it.
\<close>

definition cache_valid :: "cache \<Rightarrow> bool" where
  "cache_valid c =
     (\<forall>stype page cnt. page \<le> 0 \<or> cnt \<le> 0 \<longrightarrow>
        cache_key stype page cnt \<notin> fst ` set (entries c))"

section \<open>Sample reports\<close>

text \<open>
  A report without any catalog id, the report of the spec's scenario (\<open>tmdbid = 603\<close>,
  \<open>season = 1\<close>), and a second report of that title with other descriptive fields.
\<close>

definition anonymous :: SubscribeStatistic where
  "anonymous = \<lparr>name = Some ''Untitled'', year = None, type = Some ''movie'', tmdbid = None,
     imdbid = None, tvdbid = None, doubanid = None, season = None, poster = None,
     backdrop = None, vote = None, description = None\<rparr>"

definition matrix :: SubscribeStatistic where
  "matrix = \<lparr>name = Some ''The Matrix'', year = Some ''1999'', type = Some ''tv'',
     tmdbid = Some 603, imdbid = None, tvdbid = None, doubanid = None, season = Some 1,
     poster = None, backdrop = None, vote = None, description = None\<rparr>"

definition matrix_reloaded :: SubscribeStatistic where
  "matrix_reloaded = matrix\<lparr>name := Some ''The Matrix Reloaded'', year := Some ''2003'',
     vote := Some 7\<rparr>"

section \<open>Facts about the store\<close>

subsection \<open>Lookups\<close>

lemma find_snoc:
  "find P (xs @ [y]) =
     (case find P xs of None \<Rightarrow> (if P y then Some y else None) | Some x \<Rightarrow> Some x)"
  by (induction xs) auto

lemma find_holds: "find P xs = Some x \<Longrightarrow> P x \<and> x \<in> set xs"
  by (induction xs) (auto split: if_splits)

lemma find_map_count:
  assumes "\<And>r. P (f r) = P r"
  shows "find P (map f rs) = map_option f (find P rs)"
  using assms by (induction rs) auto

lemma find_map_upd:
  "find (\<lambda>r. plugin_id r = pid)
     (map (\<lambda>r. if plugin_id r = k then r\<lparr>PluginStatistics.count := v\<rparr> else r) rs) =
   map_option (\<lambda>r. if plugin_id r = k then r\<lparr>PluginStatistics.count := v\<rparr> else r)
     (find (\<lambda>r. plugin_id r = pid) rs)"
  by (induction rs) auto

lemma find_plugin_id: "find (\<lambda>r. plugin_id r = pid) rs = Some p \<Longrightarrow> plugin_id p = pid"
  by (induction rs) (auto split: if_splits)

text \<open>
  Reports of one plugin handled one after another, as the batch endpoint does: each adds
  1, so \<open>n\<close> reports of an unseen plugin leave the count \<open>n\<close>.
\<close>

lemma plugin_install_count:
  "plugin_count (snd (plugin_install pid d)) pid =
     Some (case plugin_count d pid of None \<Rightarrow> 1 | Some c \<Rightarrow> c + 1)"
  by (auto simp: plugin_install_def plugin_count_def PluginStatistics_read_def
      PluginStatistics_create_def PluginStatistics_update_def find_map_upd find_snoc
      dest: find_plugin_id split: option.splits)

lemma plugin_batch_install_replicate:
  "plugin_count (snd (plugin_batch_install (replicate (Suc n) \<lparr>plugin_id = pid\<rparr>) d)) pid =
     Some ((case plugin_count d pid of None \<Rightarrow> 0 | Some c \<Rightarrow> c) + int (Suc n))"
  unfolding plugin_batch_install_def snd_conv
proof (induction n arbitrary: d)
  case 0
  show ?case by (simp add: plugin_install_count split: option.splits)
next
  case (Suc n)
  have "fold (\<lambda>plugin d'. snd (plugin_install (plugin_id plugin) d'))
          (replicate (Suc (Suc n)) \<lparr>plugin_id = pid\<rparr>) d =
        fold (\<lambda>plugin d'. snd (plugin_install (plugin_id plugin) d'))
          (replicate (Suc n) \<lparr>plugin_id = pid\<rparr>) (snd (plugin_install pid d))"
    by simp
  then show ?case
    using Suc [of "snd (plugin_install pid d)"]
    by (simp add: plugin_install_count split: option.splits)
qed

lemma plugin_batch_install_fresh:
  "plugin_count (snd (plugin_batch_install (replicate (Suc n) \<lparr>plugin_id = pid\<rparr>) init_db)) pid =
     Some (int (Suc n))"
  using plugin_batch_install_replicate [of n pid init_db]
  by (simp add: plugin_count_def PluginStatistics_read_def init_db_def)

lemma plugin_install_other:
  "pid' \<noteq> pid \<Longrightarrow> plugin_count (snd (plugin_install pid d)) pid' = plugin_count d pid'"
  by (auto simp: plugin_install_def plugin_count_def PluginStatistics_read_def
      PluginStatistics_create_def PluginStatistics_update_def find_map_upd find_snoc
      dest: find_plugin_id split: option.splits)

lemma extend_simps [simp]:
  "tmdbid (SubscribeStatistic.extend p (SubscribeStatistics.fields i b c)) = tmdbid p"
  "doubanid (SubscribeStatistic.extend p (SubscribeStatistics.fields i b c)) = doubanid p"
  "season (SubscribeStatistic.extend p (SubscribeStatistics.fields i b c)) = season p"
  "sid (SubscribeStatistic.extend p (SubscribeStatistics.fields i b c)) = i"
  "SubscribeStatistics.count (SubscribeStatistic.extend p (SubscribeStatistics.fields i b c)) = c"
  by (simp_all add: SubscribeStatistic.defs SubscribeStatistics.defs)

lemma subscribe_add_count:
  "subscribe_count (snd (subscribe_add p d)) (py_or (tmdbid p) (doubanid p)) (season p) =
     Some (case subscribe_count d (py_or (tmdbid p) (doubanid p)) (season p) of
             None \<Rightarrow> 1 | Some c \<Rightarrow> c + 1)"
  by (auto simp: subscribe_add_def subscribe_count_def SubscribeStatistics_read_def
      SubscribeStatistics_create_def SubscribeStatistics_update_def find_snoc find_map_count
      split: option.splits)


lemma read_Some:
  "SubscribeStatistics_read d m s = Some sub \<Longrightarrow> sub \<in> set (subscribes d) \<and> ident sub = (m, s)"
  by (auto simp: SubscribeStatistics_read_def ident_def dest: find_holds)

lemma read_None:
  "SubscribeStatistics_read d m s = None \<Longrightarrow> (m, s) \<notin> ident ` set (subscribes d)"
  by (auto simp: SubscribeStatistics_read_def ident_def find_None_iff)

lemma ident_count_upd [simp]: "ident (r\<lparr>SubscribeStatistics.count := v\<rparr>) = ident r"
  by (simp add: ident_def)

lemma ident_extend [simp]:
  "ident (SubscribeStatistic.extend p (SubscribeStatistics.fields i b c)) =
     (py_or (tmdbid p) (doubanid p), season p)"
  by (simp add: ident_def)

lemma sid_update_comp [simp]:
  "sid \<circ> (\<lambda>r. if sid r = i then r\<lparr>SubscribeStatistics.count := v\<rparr> else r) = sid"
  by (rule ext) simp

lemma ident_update_comp [simp]:
  "ident \<circ> (\<lambda>r. if sid r = i then r\<lparr>SubscribeStatistics.count := v\<rparr> else r) = ident"
  by (rule ext) simp

subsection \<open>The invariants are kept\<close>

lemma wf_db_init: "wf_db init_db"
  by (simp add: wf_db_def init_db_def)

lemma wf_db_create:
  assumes "wf_db d" and "(py_or (tmdbid p) (doubanid p), season p) \<notin> ident ` set (subscribes d)"
  shows "wf_db (SubscribeStatistics_create p c d)"
proof -
  have lt: "\<forall>r\<in>set (subscribes d). sid r < next_sid d"
    using assms(1) by (simp add: wf_db_def list_all_iff)
  then have "\<forall>x\<in>set (map sid (subscribes d)). x \<le> next_sid d" by auto
  moreover have "next_sid d \<notin> sid ` set (subscribes d)" using lt by auto
  ultimately show ?thesis
    using assms lt
    by (auto simp: wf_db_def SubscribeStatistics_create_def sorted_append list_all_iff less_Suc_eq)
qed

lemma wf_db_update: "wf_db d \<Longrightarrow> wf_db (SubscribeStatistics_update sub d v)"
  by (auto simp: wf_db_def SubscribeStatistics_update_def list_all_iff)

lemma wf_db_delete: "wf_db d \<Longrightarrow> wf_db (SubscribeStatistics_delete d i)"
  by (auto simp: wf_db_def SubscribeStatistics_delete_def list_all_iff filter_map comp_def
      intro: sorted_filter distinct_map_filter)

lemma wf_db_subscribe_add: "wf_db d \<Longrightarrow> wf_db (snd (subscribe_add p d))"
  by (auto simp: subscribe_add_def wf_db_create wf_db_update dest: read_None split: option.splits)

lemma wf_db_subscribe_done: "wf_db d \<Longrightarrow> wf_db (snd (subscribe_done p d))"
  by (auto simp: subscribe_done_def wf_db_delete wf_db_update split: option.splits)

lemma wf_db_run_ops: "wf_db d \<Longrightarrow> wf_db (run_ops ops d)"
  unfolding run_ops_def
proof (induction ops arbitrary: d)
  case Nil
  then show ?case by simp
next
  case (Cons x xs)
  then show ?case by (cases x) (simp_all add: wf_db_subscribe_add wf_db_subscribe_done)
qed


lemma counts_positive_add: "counts_positive d \<Longrightarrow> counts_positive (snd (subscribe_add p d))"
  by (auto simp: counts_positive_def subscribe_add_def SubscribeStatistics_create_def
      SubscribeStatistics_update_def list_all_iff dest!: read_Some split: option.splits)

lemma counts_positive_done: "counts_positive d \<Longrightarrow> counts_positive (snd (subscribe_done p d))"
  by (auto simp: counts_positive_def subscribe_done_def SubscribeStatistics_delete_def
      SubscribeStatistics_update_def list_all_iff split: option.splits)

lemma counts_positive_run_ops: "counts_positive d \<Longrightarrow> counts_positive (run_ops ops d)"
  unfolding run_ops_def
proof (induction ops arbitrary: d)
  case Nil
  then show ?case by simp
next
  case (Cons x xs)
  then show ?case by (cases x) (simp_all add: counts_positive_add counts_positive_done)
qed

subsection \<open>Effects of add and done on the row of an identity\<close>

lemma read_delete_None:
  assumes "wf_db d" and "SubscribeStatistics_read d m s = Some sub"
  shows "SubscribeStatistics_read (SubscribeStatistics_delete d (sid sub)) m s = None"
proof -
  have inj: "inj_on ident (set (subscribes d))"
    using assms(1) by (simp add: wf_db_def distinct_map)
  have sub: "sub \<in> set (subscribes d)" "ident sub = (m, s)"
    using read_Some [OF assms(2)] by simp_all
  have "\<not> (py_or (tmdbid r) (doubanid r) = m \<and> season r = s)"
    if "r \<in> set (subscribes d)" "sid r \<noteq> sid sub" for r
  proof
    assume "py_or (tmdbid r) (doubanid r) = m \<and> season r = s"
    then have "ident r = ident sub" using sub(2) by (simp add: ident_def)
    then have "r = sub" using inj that(1) sub(1) by (auto dest: inj_onD)
    then show False using that(2) by simp
  qed
  then show ?thesis
    by (auto simp: SubscribeStatistics_read_def SubscribeStatistics_delete_def find_None_iff)
qed

lemma read_update:
  assumes "SubscribeStatistics_read d m s = Some sub"
  shows "SubscribeStatistics_read (SubscribeStatistics_update sub d v) m s =
           Some (sub\<lparr>SubscribeStatistics.count := v\<rparr>)"
  using assms
  by (simp add: SubscribeStatistics_read_def SubscribeStatistics_update_def find_map_count)

lemma subscribe_done_count:
  assumes "wf_db d"
  shows "subscribe_count (snd (subscribe_done p d)) (py_or (tmdbid p) (doubanid p)) (season p) =
           (case subscribe_count d (py_or (tmdbid p) (doubanid p)) (season p) of
              None \<Rightarrow> None
            | Some c \<Rightarrow> if c \<le> 1 then None else Some (c - 1))"
  using assms
  by (auto simp: subscribe_done_def subscribe_count_def read_delete_None read_update
      split: option.splits)

lemma attributes_update_comp:
  "attributes \<circ> (\<lambda>r. if sid r = i then r\<lparr>SubscribeStatistics.count := v\<rparr> else r) = attributes"
  by (rule ext) (simp add: attributes_def)

lemma map_update_other:
  "map (\<lambda>r. if sid r = i then r\<lparr>SubscribeStatistics.count := v\<rparr> else r)
     (filter (\<lambda>r. sid r \<noteq> i) rs) = filter (\<lambda>r. sid r \<noteq> i) rs"
  by (induction rs) auto

lemma subscribe_add_present:
  assumes "SubscribeStatistics_read d (py_or (tmdbid p) (doubanid p)) (season p) = Some sub"
  shows "SubscribeStatistics_read (snd (subscribe_add p d)) (py_or (tmdbid p) (doubanid p)) (season p)
           = Some (sub\<lparr>SubscribeStatistics.count := SubscribeStatistics.count sub + 1\<rparr>)"
    and "map attributes (subscribes (snd (subscribe_add p d))) = map attributes (subscribes d)"
    and "filter (\<lambda>r. sid r \<noteq> sid sub) (subscribes (snd (subscribe_add p d))) =
         filter (\<lambda>r. sid r \<noteq> sid sub) (subscribes d)"
proof -
  have eq: "snd (subscribe_add p d) =
      SubscribeStatistics_update sub d (SubscribeStatistics.count sub + 1)"
    using assms by (simp add: subscribe_add_def)
  show "SubscribeStatistics_read (snd (subscribe_add p d)) (py_or (tmdbid p) (doubanid p)) (season p)
           = Some (sub\<lparr>SubscribeStatistics.count := SubscribeStatistics.count sub + 1\<rparr>)"
    unfolding eq using assms by (rule read_update)
  show "map attributes (subscribes (snd (subscribe_add p d))) = map attributes (subscribes d)"
    unfolding eq by (simp add: SubscribeStatistics_update_def attributes_update_comp)
  show "filter (\<lambda>r. sid r \<noteq> sid sub) (subscribes (snd (subscribe_add p d))) =
         filter (\<lambda>r. sid r \<noteq> sid sub) (subscribes d)"
    unfolding eq
    by (simp add: SubscribeStatistics_update_def filter_map comp_def map_update_other)
qed


lemmas store_defs = subscribe_add_def subscribe_done_def subscribe_count_def
  SubscribeStatistics_read_def SubscribeStatistics_create_def SubscribeStatistics_update_def
  SubscribeStatistics_delete_def init_db_def py_or_def success_def
  SubscribeStatistic.defs SubscribeStatistics.defs

section \<open>The claims about the counter store\<close>

text \<open>
  Claim C2, as amended. \<^verbatim>\<open>plugin_install\<close> looks the row up by plugin id; when there is
  none it creates one with count 1, otherwise it stores the count plus 1. The response
  is the fixed acknowledgement \<^verbatim>\<open>{"message": "success"}\<close>; the resulting count is what
  the store holds afterwards, not what the caller receives.
\<close>

theorem plugin_install_persists:
  "fst (plugin_install pid d) = success \<and>
   plugin_count (snd (plugin_install pid d)) pid =
     Some (case plugin_count d pid of None \<Rightarrow> 1 | Some c \<Rightarrow> c + 1)"
proof -
  have "fst (plugin_install pid d) = success"
    by (simp add: plugin_install_def split: option.splits)
  then show ?thesis
    by (simp add: plugin_install_count)
qed

theorem plugin_install_persists_witness:
  "plugin_count (snd (plugin_install ''x'' init_db)) ''x'' = Some 1"
  using plugin_install_persists [of "''x''" init_db]
  by (simp add: plugin_count_def PluginStatistics_read_def init_db_def)


text \<open>
  The first and the second report of a plugin get the same response, although the
  resulting counts are 1 and 2: the response does not carry the count.
\<close>

theorem plugin_install_response_counterexample:
  "fst (plugin_install ''x'' init_db) = success \<and> success \<noteq> JInt 1 \<and>
   fst (plugin_install ''x'' (snd (plugin_install ''x'' init_db))) = fst (plugin_install ''x'' init_db) \<and>
   plugin_count (snd (plugin_install ''x'' init_db)) ''x'' = Some 1 \<and>
   plugin_count (snd (plugin_install ''x'' (snd (plugin_install ''x'' init_db)))) ''x'' = Some 2"
  by (simp add: plugin_install_def plugin_count_def PluginStatistics_read_def
      PluginStatistics_create_def PluginStatistics_update_def init_db_def success_def)

text \<open>
  Claim C3, as amended. For a report with neither \<open>tmdbid\<close> nor \<open>doubanid\<close> the media id
  is \<^verbatim>\<open>None\<close>; the report is not rejected: \<^verbatim>\<open>subscribe_add\<close> answers with the
  acknowledgement and counts the report under the key \<^verbatim>\<open>(None, season)\<close>, creating the
  row with count 1 or adding 1 to it.
\<close>

theorem subscribe_add_without_ids:
  assumes "tmdbid p = None" and "doubanid p = None"
  shows "py_or (tmdbid p) (doubanid p) = MNone \<and>
         fst (subscribe_add p d) = success \<and>
         subscribe_count (snd (subscribe_add p d)) MNone (season p) =
           Some (case subscribe_count d MNone (season p) of None \<Rightarrow> 1 | Some c \<Rightarrow> c + 1)"
proof -
  have m: "py_or (tmdbid p) (doubanid p) = MNone"
    using assms by (simp add: py_or_def)
  have "fst (subscribe_add p d) = success"
    by (simp add: subscribe_add_def split: option.splits)
  then show ?thesis
    using m subscribe_add_count [of p d] by simp
qed

theorem subscribe_add_without_ids_witness:
  "tmdbid anonymous = None \<and> doubanid anonymous = None \<and>
   fst (subscribe_add anonymous init_db) = success \<and>
   subscribe_count (snd (subscribe_add anonymous init_db)) MNone None = Some 1"
proof -
  have h: "tmdbid anonymous = None" "doubanid anonymous = None" "season anonymous = None"
    by (simp_all add: anonymous_def)
  have "subscribe_count init_db MNone None = None"
    by (simp add: subscribe_count_def SubscribeStatistics_read_def init_db_def)
  then show ?thesis
    using h subscribe_add_without_ids [OF h(1) h(2), of init_db] by simp
qed

text \<open>
  A report without ids on the empty store is acknowledged and leaves a row under the
  null key with count 1; a second one raises it to 2.
\<close>

theorem subscribe_add_null_key_counterexample:
  "tmdbid anonymous = None \<and> doubanid anonymous = None \<and>
   fst (subscribe_add anonymous init_db) = success \<and>
   subscribes (snd (subscribe_add anonymous init_db)) \<noteq> subscribes init_db \<and>
   subscribe_count (snd (subscribe_add anonymous init_db)) MNone None = Some 1 \<and>
   subscribe_count (snd (subscribe_add anonymous (snd (subscribe_add anonymous init_db))))
     MNone None = Some 2"
  by (simp add: anonymous_def store_defs)

text \<open>
  Claim C4, as amended. On a store whose rows have unique keys and identities,
  \<^verbatim>\<open>subscribe_done\<close> leaves the store as it is when the identity has no row, deletes the
  row when its count is at most 1, and stores the count minus 1 otherwise; so add then
  done on an identity without a row leaves no row, and a second done changes nothing.
  The response is the fixed acknowledgement in every case; it does not tell whether a
  row was deleted.
\<close>

theorem subscribe_done_effect:
  assumes "wf_db d"
  shows "fst (subscribe_done p d) = success \<and>
         subscribe_count (snd (subscribe_done p d)) (py_or (tmdbid p) (doubanid p)) (season p) =
           (case subscribe_count d (py_or (tmdbid p) (doubanid p)) (season p) of
              None \<Rightarrow> None
            | Some c \<Rightarrow> if c \<le> 1 then None else Some (c - 1)) \<and>
         (subscribe_count d (py_or (tmdbid p) (doubanid p)) (season p) = None \<longrightarrow>
            snd (subscribe_done p d) = d \<and>
            subscribe_count (snd (subscribe_done p (snd (subscribe_add p d))))
              (py_or (tmdbid p) (doubanid p)) (season p) = None \<and>
            snd (subscribe_done p (snd (subscribe_done p (snd (subscribe_add p d))))) =
              snd (subscribe_done p (snd (subscribe_add p d))))"
proof -
  let ?m = "py_or (tmdbid p) (doubanid p)" and ?s = "season p"
  have r: "fst (subscribe_done p d) = success"
    by (simp add: subscribe_done_def split: option.splits)
  have noop: "snd (subscribe_done p d') = d'" if "subscribe_count d' ?m ?s = None" for d'
    using that by (simp add: subscribe_done_def subscribe_count_def)
  have gone: "subscribe_count (snd (subscribe_done p (snd (subscribe_add p d)))) ?m ?s = None"
    if "subscribe_count d ?m ?s = None"
    using that subscribe_done_count [OF wf_db_subscribe_add [OF assms], of p p]
      subscribe_add_count [of p d] by simp
  show ?thesis
    using r subscribe_done_count [OF assms, of p] noop gone by simp
qed

theorem subscribe_done_effect_witness:
  "wf_db init_db \<and> wf_db (snd (subscribe_add matrix init_db)) \<and>
   wf_db (snd (subscribe_add matrix (snd (subscribe_add matrix init_db)))) \<and>
   snd (subscribe_done matrix init_db) = init_db \<and>
   subscribe_count (snd (subscribe_add matrix init_db)) (MInt 603) (Some 1) = Some 1 \<and>
   subscribe_count (snd (subscribe_done matrix (snd (subscribe_add matrix init_db))))
     (MInt 603) (Some 1) = None \<and>
   subscribe_count (snd (subscribe_add matrix (snd (subscribe_add matrix init_db))))
     (MInt 603) (Some 1) = Some 2 \<and>
   subscribe_count (snd (subscribe_done matrix
       (snd (subscribe_add matrix (snd (subscribe_add matrix init_db))))))
     (MInt 603) (Some 1) = Some 1"
proof -
  let ?d1 = "snd (subscribe_add matrix init_db)"
  let ?d2 = "snd (subscribe_add matrix ?d1)"
  have w: "wf_db init_db" "wf_db ?d1" "wf_db ?d2"
    by (simp_all add: wf_db_init wf_db_subscribe_add)
  have m: "py_or (tmdbid matrix) (doubanid matrix) = MInt 603" "season matrix = Some 1"
    by (simp_all add: matrix_def py_or_def)
  have c: "subscribe_count init_db (MInt 603) (Some 1) = None"
      "subscribe_count ?d1 (MInt 603) (Some 1) = Some 1"
      "subscribe_count ?d2 (MInt 603) (Some 1) = Some 2"
    by (simp_all add: matrix_def store_defs)
  show ?thesis
    using w c subscribe_done_effect [OF w(1), of matrix] subscribe_done_effect [OF w(2), of matrix]
      subscribe_done_effect [OF w(3), of matrix]
    by (simp add: m)
qed

text \<open>
  Done on an identity without a row and done on a row with count 1, which deletes it,
  get the same response, which is neither \<^verbatim>\<open>True\<close> nor \<^verbatim>\<open>False\<close>.
\<close>

theorem subscribe_done_response_counterexample:
  "subscribe_count init_db (MInt 603) (Some 1) = None \<and>
   subscribe_count (snd (subscribe_add matrix init_db)) (MInt 603) (Some 1) = Some 1 \<and>
   subscribe_count (snd (subscribe_done matrix (snd (subscribe_add matrix init_db))))
     (MInt 603) (Some 1) = None \<and>
   fst (subscribe_done matrix (snd (subscribe_add matrix init_db))) = success \<and>
   fst (subscribe_done matrix init_db) = success \<and>
   success \<noteq> JBool True \<and> success \<noteq> JBool False"
  by (simp add: matrix_def store_defs)


text \<open>
  Claim C5. Starting from a store in which every subscription row has a count of at least
  1 (the empty store is one), every sequence of add and done reports leaves a store with
  that property: whenever an identity has a row, its count is at least 1.
\<close>

theorem subscribe_counts_stay_positive:
  assumes "counts_positive d"
  shows "counts_positive (run_ops ops d) \<and>
         (\<forall>c. subscribe_count (run_ops ops d) m s = Some c \<longrightarrow> 1 \<le> c)"
proof -
  have p: "counts_positive (run_ops ops d)"
    using assms by (rule counts_positive_run_ops)
  have "1 \<le> c" if "subscribe_count (run_ops ops d) m s = Some c" for c
  proof (cases "SubscribeStatistics_read (run_ops ops d) m s")
    case None
    then show ?thesis using that by (simp add: subscribe_count_def)
  next
    case (Some r)
    then have "r \<in> set (subscribes (run_ops ops d))" by (simp add: read_Some)
    then have "1 \<le> SubscribeStatistics.count r"
      using p by (simp add: counts_positive_def list_all_iff)
    then show ?thesis using that Some by (simp add: subscribe_count_def)
  qed
  then show ?thesis using p by simp
qed

theorem subscribe_counts_stay_positive_witness:
  "counts_positive init_db \<and>
   counts_positive (run_ops [OpAdd matrix, OpAdd matrix, OpDone matrix, OpDone matrix,
                             OpDone matrix, OpAdd matrix] init_db) \<and>
   subscribe_count (run_ops [OpAdd matrix, OpAdd matrix, OpDone matrix, OpDone matrix,
                             OpDone matrix, OpAdd matrix] init_db) (MInt 603) (Some 1) = Some 1"
proof -
  have i: "counts_positive init_db"
    by (simp add: counts_positive_def init_db_def)
  have c: "subscribe_count (run_ops [OpAdd matrix, OpAdd matrix, OpDone matrix, OpDone matrix,
             OpDone matrix, OpAdd matrix] init_db) (MInt 603) (Some 1) = Some 1"
    by (simp add: run_ops_def matrix_def store_defs)
  show ?thesis
    using i c subscribe_counts_stay_positive [OF i] by blast
qed

text \<open>
  Claim C6. When the identity of an add report already has a row, the row read back
  afterwards is the stored row with its count raised by 1 and nothing else changed, so
  the report's own descriptive fields are not applied; every row keeps all its fields
  other than the count, and the rows with another primary key are untouched.
\<close>

theorem subscribe_add_keeps_attributes:
  assumes "SubscribeStatistics_read d (py_or (tmdbid p) (doubanid p)) (season p) = Some sub"
  shows "SubscribeStatistics_read (snd (subscribe_add p d)) (py_or (tmdbid p) (doubanid p)) (season p)
           = Some (sub\<lparr>SubscribeStatistics.count := SubscribeStatistics.count sub + 1\<rparr>) \<and>
         map attributes (subscribes (snd (subscribe_add p d))) = map attributes (subscribes d) \<and>
         filter (\<lambda>r. sid r \<noteq> sid sub) (subscribes (snd (subscribe_add p d))) =
           filter (\<lambda>r. sid r \<noteq> sid sub) (subscribes d)"
  using subscribe_add_present [OF assms] by simp

theorem subscribe_add_keeps_attributes_witness:
  "SubscribeStatistics_read (snd (subscribe_add matrix init_db)) (MInt 603) (Some 1) =
     Some (SubscribeStatistic.extend matrix (SubscribeStatistics.fields 1 None 1)) \<and>
   SubscribeStatistics_read (snd (subscribe_add matrix_reloaded (snd (subscribe_add matrix init_db))))
     (MInt 603) (Some 1) =
     Some (SubscribeStatistic.extend matrix (SubscribeStatistics.fields 1 None 2)) \<and>
   name matrix_reloaded \<noteq> name matrix"
proof -
  have m: "py_or (tmdbid matrix_reloaded) (doubanid matrix_reloaded) = MInt 603"
      "season matrix_reloaded = Some 1"
    by (simp_all add: matrix_reloaded_def matrix_def py_or_def)
  have r: "SubscribeStatistics_read (snd (subscribe_add matrix init_db)) (MInt 603) (Some 1) =
     Some (SubscribeStatistic.extend matrix (SubscribeStatistics.fields 1 None 1))"
    by (simp add: matrix_def store_defs)
  have n: "name matrix_reloaded \<noteq> name matrix"
    by (simp add: matrix_reloaded_def matrix_def)
  show ?thesis
    using r n subscribe_add_keeps_attributes [of "snd (subscribe_add matrix init_db)" matrix_reloaded
        "SubscribeStatistic.extend matrix (SubscribeStatistics.fields 1 None 1)"]
    by (simp add: m SubscribeStatistic.defs SubscribeStatistics.defs)
qed


section \<open>Facts about the cache\<close>

lemma find_fst_key: "find (\<lambda>e. fst e = k) es = Some (k', x) \<Longrightarrow> k' = k"
  by (induction es) (auto split: if_splits)

lemma find_filter: "find P (filter Q xs) = find (\<lambda>x. Q x \<and> P x) xs"
  by (induction xs) auto

lemma find_append:
  "find P (xs @ ys) = (case find P xs of None \<Rightarrow> find P ys | Some x \<Rightarrow> Some x)"
  by (induction xs) auto

lemma find_key_filter_other:
  "k' \<noteq> k \<Longrightarrow>
   find (\<lambda>e. fst e = k') (filter (\<lambda>e. fst e \<noteq> k) es) = find (\<lambda>e. fst e = k') es"
  by (induction es) auto

lemma find_key_filter_same: "find (\<lambda>e. fst e = k) (filter (\<lambda>e. fst e \<noteq> k) es) = None"
  by (simp add: find_None_iff)

lemma find_key_absent: "k \<notin> fst ` set es \<Longrightarrow> find (\<lambda>e. fst e = k) es = None"
  by (induction es) auto

lemma find_key_tl_absent: "k \<notin> fst ` set es \<Longrightarrow> find (\<lambda>e. fst e = k) (tl es) = None"
  by (cases es) (simp_all add: find_key_absent)

lemma stored_without:
  "stored (c\<lparr>entries := filter (\<lambda>e. fst e \<noteq> k) (entries c)\<rparr>) k' =
     (if k' = k then None else stored c k')"
  by (simp add: stored_def find_key_filter_other find_key_filter_same)

lemma stored_moved:
  "stored (c\<lparr>entries := filter (\<lambda>e. fst e \<noteq> k) (entries c) @ [(k, x)]\<rparr>) k' =
     (if k' = k then Some x else stored c k')"
  by (simp add: stored_def find_append find_key_filter_other find_key_filter_same
      split: option.splits)

lemma Cache_get_stored:
  "Cache_get c now k =
     (case stored c k of
        None \<Rightarrow> (JNull, c)
      | Some (v, e) \<Rightarrow>
          if now < e
          then (v, c\<lparr>entries := filter (\<lambda>e. fst e \<noteq> k) (entries c) @ [(k, v, e)]\<rparr>)
          else (JNull, c\<lparr>entries := filter (\<lambda>e. fst e \<noteq> k) (entries c)\<rparr>))"
  by (auto simp: Cache_get_def stored_def split: option.splits dest: find_fst_key)

lemma fst_Cache_get:
  "fst (Cache_get c now k) =
     (case stored c k of None \<Rightarrow> JNull | Some (v, e) \<Rightarrow> if now < e then v else JNull)"
  by (simp add: Cache_get_stored split: option.splits)

lemma stored_Cache_get:
  "stored (snd (Cache_get c now k)) k' =
     (if k' = k
      then (case stored c k of None \<Rightarrow> None | Some (v, e) \<Rightarrow> if now < e then Some (v, e) else None)
      else stored c k')"
  by (simp add: Cache_get_stored stored_moved stored_without split: option.splits)

lemma ttl_Cache_get [simp]: "ttl (snd (Cache_get c now k)) = ttl c"
  by (simp add: Cache_get_stored split: option.splits)

lemma maxsize_Cache_get [simp]: "maxsize (snd (Cache_get c now k)) = maxsize c"
  by (simp add: Cache_get_stored split: option.splits)

lemma stored_Cache_set_same: "stored (Cache_set c now k v) k = Some (v, now + ttl c)"
  by (simp add: Cache_set_def stored_def Let_def find_append find_key_filter_same
      find_key_absent find_key_tl_absent)

lemma ttl_Cache_set [simp]: "ttl (Cache_set c now k v) = ttl c"
  by (simp add: Cache_set_def Let_def)

lemma maxsize_Cache_set [simp]: "maxsize (Cache_set c now k v) = maxsize c"
  by (simp add: Cache_set_def Let_def)


lemma truthy_Cache_get:
  "truthy (case stored c k of None \<Rightarrow> JNull | Some (v, e) \<Rightarrow> if now < e then v else JNull) =
     served c now k"
  by (simp add: served_def split: option.splits)

lemma plugin_statistic_served:
  assumes "stored c ''plugin'' = Some (v, e)" and "now < e" and "truthy v"
  shows "fst (plugin_statistic d c now) = v"
    and "stored (snd (plugin_statistic d c now)) ''plugin'' = Some (v, e)"
  using assms
  by (simp_all add: plugin_statistic_def case_prod_beta Let_def fst_Cache_get stored_Cache_get)

lemma plugin_statistic_loads:
  assumes "0 < ttl c" and "\<not> served c now ''plugin''"
  shows "fst (plugin_statistic d c now) = plugin_dict (PluginStatistics_list d)"
    and "stored (snd (plugin_statistic d c now)) ''plugin'' =
           Some (plugin_dict (PluginStatistics_list d), now + ttl c)"
  using assms
  by (simp_all add: plugin_statistic_def case_prod_beta Let_def truthy_Cache_get
      fst_Cache_get stored_Cache_get stored_Cache_set_same)

lemma subscribe_statistic_served:
  assumes "stored c (cache_key stype page cnt) = Some (v, e)" and "now < e" and "truthy v"
  shows "fst (subscribe_statistic stype page cnt d c now) = Inr v"
    and "stored (snd (subscribe_statistic stype page cnt d c now)) (cache_key stype page cnt) =
           Some (v, e)"
  using assms
  by (simp_all add: subscribe_statistic_def case_prod_beta Let_def fst_Cache_get stored_Cache_get)

lemma subscribe_statistic_loads:
  assumes "0 < ttl c" and "\<not> served c now (cache_key stype page cnt)"
    and "SubscribeStatistics_list d stype page cnt = Inr statistics"
  shows "fst (subscribe_statistic stype page cnt d c now) =
           Inr (JList (map subscribe_dict statistics))"
    and "stored (snd (subscribe_statistic stype page cnt d c now)) (cache_key stype page cnt) =
           Some (JList (map subscribe_dict statistics), now + ttl c)"
  using assms
  by (simp_all add: subscribe_statistic_def case_prod_beta Let_def truthy_Cache_get
      fst_Cache_get stored_Cache_get stored_Cache_set_same)

lemma subscribe_statistic_fails:
  assumes "\<not> served c now (cache_key stype page cnt)"
    and "SubscribeStatistics_list d stype page cnt = Inl err"
  shows "fst (subscribe_statistic stype page cnt d c now) = Inl err"
    and "snd (subscribe_statistic stype page cnt d c now) =
           snd (Cache_get c now (cache_key stype page cnt))"
  using assms
  by (simp_all add: subscribe_statistic_def case_prod_beta Let_def truthy_Cache_get
      fst_Cache_get)


lemma ttl_plugin_statistic [simp]: "ttl (snd (plugin_statistic d c now)) = ttl c"
  by (simp add: plugin_statistic_def case_prod_beta Let_def)

lemma ttl_subscribe_statistic [simp]:
  "ttl (snd (subscribe_statistic stype page cnt d c now)) = ttl c"
  by (simp add: subscribe_statistic_def case_prod_beta Let_def split: sum.splits)

lemma served_cases:
  "served c now k \<Longrightarrow> \<exists>v e. stored c k = Some (v, e) \<and> now < e \<and> truthy v"
  by (auto simp: served_def split: option.splits)

lemma not_served_falsy: "stored c k = Some (v, e) \<Longrightarrow> \<not> truthy v \<Longrightarrow> \<not> served c now k"
  by (simp add: served_def)

lemma not_served_expired: "stored c k = Some (v, e) \<Longrightarrow> e \<le> now \<Longrightarrow> \<not> served c now k"
  by (simp add: served_def)

lemma not_served_absent: "stored c k = None \<Longrightarrow> \<not> served c now k"
  by (simp add: served_def)

lemmas cache_defs = plugin_statistic_def subscribe_statistic_def Cache_get_def Cache_set_def
  StatisticCache_def Cache_def stored_def served_def plugin_dict_def PluginStatistics_list_def
  plugin_install_def PluginStatistics_read_def PluginStatistics_create_def
  PluginStatistics_update_def init_db_def

lemma plugin_statistic_after_empty:
  assumes "0 < ttl c" and "stored c ''plugin'' = Some (v, e)" and "\<not> truthy v"
  shows "fst (plugin_statistic d c now) = plugin_dict (PluginStatistics_list d)"
    and "stored (snd (plugin_statistic d c now)) ''plugin'' =
           Some (plugin_dict (PluginStatistics_list d), now + ttl c)"
  using plugin_statistic_loads [OF assms(1) not_served_falsy [OF assms(2,3)]] by simp_all

lemma subscribe_statistic_after_empty:
  assumes "0 < ttl c" and "stored c (cache_key stype page cnt) = Some (v, e)" and "\<not> truthy v"
    and "SubscribeStatistics_list d stype page cnt = Inr statistics"
  shows "fst (subscribe_statistic stype page cnt d c now) =
           Inr (JList (map subscribe_dict statistics))"
    and "stored (snd (subscribe_statistic stype page cnt d c now)) (cache_key stype page cnt) =
           Some (JList (map subscribe_dict statistics), now + ttl c)"
  using subscribe_statistic_loads [OF assms(1) not_served_falsy [OF assms(2,3)] assms(4)]
  by simp_all

lemma plugin_dict_Nil: "plugin_dict [] = JDict []"
  by (simp add: plugin_dict_def)

section \<open>The claims about the cached queries\<close>

text \<open>
  Claim C8, as amended. With a positive TTL, a query at a time strictly before the entry's
  load time plus the TTL returns the stored value unchanged, whatever the database holds,
  when that value is truthy (a non-empty dict or list). A query at or after load time
  plus TTL, without an entry, or with an empty stored value runs the database query,
  stores its result under the key with a fresh TTL and returns it. This holds for
  \<^verbatim>\<open>plugin_statistic\<close> and, when \<^verbatim>\<open>list\<close> returns a page, for \<^verbatim>\<open>subscribe_statistic\<close>.
\<close>

theorem statistic_read_through:
  assumes "0 < ttl c"
  shows "(served c now ''plugin'' \<longrightarrow>
            (\<exists>v e. stored c ''plugin'' = Some (v, e) \<and>
               fst (plugin_statistic d c now) = v \<and>
               stored (snd (plugin_statistic d c now)) ''plugin'' = Some (v, e))) \<and>
         (\<not> served c now ''plugin'' \<longrightarrow>
            fst (plugin_statistic d c now) = plugin_dict (PluginStatistics_list d) \<and>
            stored (snd (plugin_statistic d c now)) ''plugin'' =
              Some (plugin_dict (PluginStatistics_list d), now + ttl c)) \<and>
         (served c now (cache_key stype page cnt) \<longrightarrow>
            (\<exists>v e. stored c (cache_key stype page cnt) = Some (v, e) \<and>
               fst (subscribe_statistic stype page cnt d c now) = Inr v \<and>
               stored (snd (subscribe_statistic stype page cnt d c now))
                 (cache_key stype page cnt) = Some (v, e))) \<and>
         (\<not> served c now (cache_key stype page cnt) \<longrightarrow>
            (\<forall>statistics. SubscribeStatistics_list d stype page cnt = Inr statistics \<longrightarrow>
               fst (subscribe_statistic stype page cnt d c now) =
                 Inr (JList (map subscribe_dict statistics)) \<and>
               stored (snd (subscribe_statistic stype page cnt d c now))
                 (cache_key stype page cnt) =
                 Some (JList (map subscribe_dict statistics), now + ttl c)))"
proof (intro conjI impI allI)
  assume "served c now ''plugin''"
  then obtain v e where "stored c ''plugin'' = Some (v, e)" "now < e" "truthy v"
    by (auto dest: served_cases)
  then show "\<exists>v e. stored c ''plugin'' = Some (v, e) \<and>
               fst (plugin_statistic d c now) = v \<and>
               stored (snd (plugin_statistic d c now)) ''plugin'' = Some (v, e)"
    using plugin_statistic_served [of c v e now d] by simp
next
  assume n: "\<not> served c now ''plugin''"
  show "fst (plugin_statistic d c now) = plugin_dict (PluginStatistics_list d)"
    using assms n by (rule plugin_statistic_loads)
  show "stored (snd (plugin_statistic d c now)) ''plugin'' =
          Some (plugin_dict (PluginStatistics_list d), now + ttl c)"
    using assms n by (rule plugin_statistic_loads)
next
  assume "served c now (cache_key stype page cnt)"
  then obtain v e where "stored c (cache_key stype page cnt) = Some (v, e)" "now < e" "truthy v"
    by (auto dest: served_cases)
  then show "\<exists>v e. stored c (cache_key stype page cnt) = Some (v, e) \<and>
               fst (subscribe_statistic stype page cnt d c now) = Inr v \<and>
               stored (snd (subscribe_statistic stype page cnt d c now))
                 (cache_key stype page cnt) = Some (v, e)"
    using subscribe_statistic_served [of c stype page cnt v e now d] by simp
next
  fix statistics
  assume n: "\<not> served c now (cache_key stype page cnt)"
    and l: "SubscribeStatistics_list d stype page cnt = Inr statistics"
  show "fst (subscribe_statistic stype page cnt d c now) =
          Inr (JList (map subscribe_dict statistics))"
    using assms n l by (rule subscribe_statistic_loads)
  show "stored (snd (subscribe_statistic stype page cnt d c now)) (cache_key stype page cnt) =
          Some (JList (map subscribe_dict statistics), now + ttl c)"
    using assms n l by (rule subscribe_statistic_loads)
qed

theorem statistic_read_through_witness:
  "0 < ttl StatisticCache \<and>
   \<not> served StatisticCache 0 ''plugin'' \<and>
   fst (plugin_statistic (snd (plugin_install ''x'' init_db)) StatisticCache 0) =
     JDict [(''x'', JInt 1)] \<and>
   served (snd (plugin_statistic (snd (plugin_install ''x'' init_db)) StatisticCache 0))
     1799 ''plugin'' \<and>
   fst (plugin_statistic init_db
          (snd (plugin_statistic (snd (plugin_install ''x'' init_db)) StatisticCache 0)) 1799) =
     JDict [(''x'', JInt 1)] \<and>
   \<not> served (snd (plugin_statistic (snd (plugin_install ''x'' init_db)) StatisticCache 0))
     1800 ''plugin'' \<and>
   fst (plugin_statistic init_db
          (snd (plugin_statistic (snd (plugin_install ''x'' init_db)) StatisticCache 0)) 1800) =
     JDict [] \<and>
   \<not> served StatisticCache 0 (cache_key ''tv'' 1 30) \<and>
   fst (subscribe_statistic ''tv'' 1 30 (snd (subscribe_add matrix init_db)) StatisticCache 0) =
     Inr (JList [subscribe_dict
       (SubscribeStatistic.extend matrix (SubscribeStatistics.fields 1 None 1))]) \<and>
   served (snd (subscribe_statistic ''tv'' 1 30 (snd (subscribe_add matrix init_db))
       StatisticCache 0)) 1799 (cache_key ''tv'' 1 30) \<and>
   fst (subscribe_statistic ''tv'' 1 30 init_db
          (snd (subscribe_statistic ''tv'' 1 30 (snd (subscribe_add matrix init_db))
             StatisticCache 0)) 1799) =
     Inr (JList [subscribe_dict
       (SubscribeStatistic.extend matrix (SubscribeStatistics.fields 1 None 1))])"
proof -
  let ?d = "snd (plugin_install ''x'' init_db)"
  let ?c = "snd (plugin_statistic ?d StatisticCache 0)"
  let ?e = "snd (subscribe_add matrix init_db)"
  let ?k = "cache_key ''tv'' 1 30"
  let ?row = "SubscribeStatistic.extend matrix (SubscribeStatistics.fields 1 None 1)"
  let ?c' = "snd (subscribe_statistic ''tv'' 1 30 ?e StatisticCache 0)"
  have t: "0 < ttl StatisticCache" "0 < ttl ?c" "0 < ttl ?c'"
    by (simp_all add: StatisticCache_def Cache_def)
  have s0: "\<not> served StatisticCache 0 ''plugin''" "\<not> served StatisticCache 0 ?k"
    by (simp_all add: StatisticCache_def Cache_def served_def stored_def)
  have l: "plugin_dict (PluginStatistics_list ?d) = JDict [(''x'', JInt 1)]"
      "plugin_dict (PluginStatistics_list init_db) = JDict []"
    by (simp_all add: cache_defs)
  have p: "SubscribeStatistics_list ?e ''tv'' 1 30 = Inr [?row]"
    by (simp add: SubscribeStatistics_list_def matrix_def store_defs)
  have st: "stored ?c ''plugin'' = Some (JDict [(''x'', JInt 1)], 1800)"
    using statistic_read_through [OF t(1), of 0 ?d] s0 l by (simp add: StatisticCache_def Cache_def)
  have s1: "served ?c 1799 ''plugin''" and s2: "\<not> served ?c 1800 ''plugin''"
    using st by (simp_all add: served_def)
  have st': "stored ?c' ?k = Some (JList [subscribe_dict ?row], 1800)"
    using statistic_read_through [OF t(1), where now = 0 and d = ?e and stype = "''tv''"
        and page = 1 and cnt = 30] s0 p
    by (simp add: StatisticCache_def Cache_def)
  have s3: "served ?c' 1799 ?k"
    using st' by (simp add: served_def)
  show ?thesis
    using t(1) s0 s1 s2 s3 l st st' p
      statistic_read_through [OF t(1), of 0 ?d]
      statistic_read_through [OF t(1), where now = 0 and d = ?e and stype = "''tv''"
        and page = 1 and cnt = 30]
      statistic_read_through [OF t(2), of 1799 init_db]
      statistic_read_through [OF t(2), of 1800 init_db]
      statistic_read_through [OF t(3), where now = 1799 and d = init_db and stype = "''tv''"
        and page = 1 and cnt = 30]
    by simp
qed

text \<open>
  The empty plugin statistic loaded at time 0 is stored until 1800; a query at time 1
  on a database that has gained a plugin returns the new dict, not the stored one.
\<close>

theorem plugin_statistic_empty_counterexample:
  "stored (snd (plugin_statistic init_db StatisticCache 0)) ''plugin'' = Some (JDict [], 1800) \<and>
   fst (plugin_statistic (snd (plugin_install ''x'' init_db))
          (snd (plugin_statistic init_db StatisticCache 0)) 1) = JDict [(''x'', JInt 1)] \<and>
   stored (snd (plugin_statistic (snd (plugin_install ''x'' init_db))
          (snd (plugin_statistic init_db StatisticCache 0)) 1)) ''plugin'' =
     Some (JDict [(''x'', JInt 1)], 1801)"
  by (simp add: cache_defs)

text \<open>
  Claim C10. An empty result is never served from the cache: when the entry of a key
  holds a falsy value (an empty dict for the plugin statistic, an empty list for a
  subscription page), the next query, at any time, runs the database query again and
  overwrites the entry with its result and a fresh TTL; and after a query that loaded an
  empty result, every following query of that key does so.
\<close>

theorem empty_result_is_reloaded:
  assumes "0 < ttl c"
  shows "(\<forall>v e. stored c ''plugin'' = Some (v, e) \<and> \<not> truthy v \<longrightarrow>
            fst (plugin_statistic d c now) = plugin_dict (PluginStatistics_list d) \<and>
            stored (snd (plugin_statistic d c now)) ''plugin'' =
              Some (plugin_dict (PluginStatistics_list d), now + ttl c)) \<and>
         (\<not> served c now ''plugin'' \<and> PluginStatistics_list d = [] \<longrightarrow>
            fst (plugin_statistic d c now) = JDict [] \<and>
            (\<forall>d' now'.
               fst (plugin_statistic d' (snd (plugin_statistic d c now)) now') =
                 plugin_dict (PluginStatistics_list d') \<and>
               stored (snd (plugin_statistic d' (snd (plugin_statistic d c now)) now')) ''plugin'' =
                 Some (plugin_dict (PluginStatistics_list d'), now' + ttl c))) \<and>
         (\<forall>v e statistics.
            stored c (cache_key stype page cnt) = Some (v, e) \<and> \<not> truthy v \<and>
            SubscribeStatistics_list d stype page cnt = Inr statistics \<longrightarrow>
            fst (subscribe_statistic stype page cnt d c now) =
              Inr (JList (map subscribe_dict statistics)) \<and>
            stored (snd (subscribe_statistic stype page cnt d c now)) (cache_key stype page cnt) =
              Some (JList (map subscribe_dict statistics), now + ttl c)) \<and>
         (\<not> served c now (cache_key stype page cnt) \<and>
          SubscribeStatistics_list d stype page cnt = Inr [] \<longrightarrow>
            fst (subscribe_statistic stype page cnt d c now) = Inr (JList []) \<and>
            (\<forall>d' now' statistics.
               SubscribeStatistics_list d' stype page cnt = Inr statistics \<longrightarrow>
               fst (subscribe_statistic stype page cnt d'
                      (snd (subscribe_statistic stype page cnt d c now)) now') =
                 Inr (JList (map subscribe_dict statistics)) \<and>
               stored (snd (subscribe_statistic stype page cnt d'
                      (snd (subscribe_statistic stype page cnt d c now)) now'))
                   (cache_key stype page cnt) =
                 Some (JList (map subscribe_dict statistics), now' + ttl c)))"
proof (intro conjI impI allI)
  fix v e
  assume a: "stored c ''plugin'' = Some (v, e) \<and> \<not> truthy v"
  show "fst (plugin_statistic d c now) = plugin_dict (PluginStatistics_list d)"
    using plugin_statistic_after_empty [OF assms, of v e] a by simp
  show "stored (snd (plugin_statistic d c now)) ''plugin'' =
          Some (plugin_dict (PluginStatistics_list d), now + ttl c)"
    using plugin_statistic_after_empty [OF assms, of v e] a by simp
next
  assume a: "\<not> served c now ''plugin'' \<and> PluginStatistics_list d = []"
  then show "fst (plugin_statistic d c now) = JDict []"
    using plugin_statistic_loads [OF assms, of now d] by (simp add: plugin_dict_Nil)
  fix d' now'
  let ?c = "snd (plugin_statistic d c now)"
  have st: "stored ?c ''plugin'' = Some (JDict [], now + ttl c)"
    using a plugin_statistic_loads [OF assms, of now d] by (simp add: plugin_dict_Nil)
  have t: "0 < ttl ?c" using assms by simp
  show "fst (plugin_statistic d' ?c now') = plugin_dict (PluginStatistics_list d')"
    using plugin_statistic_after_empty [OF t st] by simp
  show "stored (snd (plugin_statistic d' ?c now')) ''plugin'' =
          Some (plugin_dict (PluginStatistics_list d'), now' + ttl c)"
    using plugin_statistic_after_empty [OF t st, of d' now'] by simp
next
  fix v e statistics
  assume a: "stored c (cache_key stype page cnt) = Some (v, e) \<and> \<not> truthy v \<and>
            SubscribeStatistics_list d stype page cnt = Inr statistics"
  show "fst (subscribe_statistic stype page cnt d c now) =
          Inr (JList (map subscribe_dict statistics))"
    using subscribe_statistic_after_empty [OF assms, of stype page cnt v e d statistics] a by simp
  show "stored (snd (subscribe_statistic stype page cnt d c now)) (cache_key stype page cnt) =
          Some (JList (map subscribe_dict statistics), now + ttl c)"
    using subscribe_statistic_after_empty [OF assms, of stype page cnt v e d statistics] a by simp
next
  assume a: "\<not> served c now (cache_key stype page cnt) \<and>
          SubscribeStatistics_list d stype page cnt = Inr []"
  then show "fst (subscribe_statistic stype page cnt d c now) = Inr (JList [])"
    using subscribe_statistic_loads [OF assms, of now stype page cnt d "[]"] by simp
  fix d' now' statistics
  assume l: "SubscribeStatistics_list d' stype page cnt = Inr statistics"
  let ?c = "snd (subscribe_statistic stype page cnt d c now)"
  have st: "stored ?c (cache_key stype page cnt) = Some (JList [], now + ttl c)"
    using a subscribe_statistic_loads [OF assms, of now stype page cnt d "[]"] by simp
  have t: "0 < ttl ?c" using assms by simp
  show "fst (subscribe_statistic stype page cnt d' ?c now') =
          Inr (JList (map subscribe_dict statistics))"
    using subscribe_statistic_after_empty [OF t st _ l] by simp
  show "stored (snd (subscribe_statistic stype page cnt d' ?c now')) (cache_key stype page cnt) =
          Some (JList (map subscribe_dict statistics), now' + ttl c)"
    using subscribe_statistic_after_empty [OF t st _ l, of now'] by simp
qed

theorem empty_result_is_reloaded_witness:
  "0 < ttl StatisticCache \<and>
   \<not> served StatisticCache 0 ''plugin'' \<and> PluginStatistics_list init_db = [] \<and>
   fst (plugin_statistic init_db StatisticCache 0) = JDict [] \<and>
   fst (plugin_statistic (snd (plugin_install ''x'' init_db))
          (snd (plugin_statistic init_db StatisticCache 0)) 1) = JDict [(''x'', JInt 1)] \<and>
   \<not> served StatisticCache 0 (cache_key ''tv'' 1 30) \<and>
   SubscribeStatistics_list init_db ''tv'' 1 30 = Inr [] \<and>
   fst (subscribe_statistic ''tv'' 1 30 init_db StatisticCache 0) = Inr (JList []) \<and>
   fst (subscribe_statistic ''tv'' 1 30 (snd (subscribe_add matrix init_db))
          (snd (subscribe_statistic ''tv'' 1 30 init_db StatisticCache 0)) 1) =
     Inr (JList [subscribe_dict
       (SubscribeStatistic.extend matrix (SubscribeStatistics.fields 1 None 1))])"
proof -
  have t: "0 < ttl StatisticCache"
    by (simp add: StatisticCache_def Cache_def)
  have s0: "\<not> served StatisticCache 0 ''plugin''"
      "\<not> served StatisticCache 0 (cache_key ''tv'' 1 30)"
    by (simp_all add: StatisticCache_def Cache_def served_def stored_def)
  have e: "PluginStatistics_list init_db = []" "SubscribeStatistics_list init_db ''tv'' 1 30 = Inr []"
    by (simp_all add: PluginStatistics_list_def SubscribeStatistics_list_def init_db_def)
  have l: "plugin_dict (PluginStatistics_list (snd (plugin_install ''x'' init_db))) =
      JDict [(''x'', JInt 1)]"
    by (simp add: cache_defs)
  have p: "SubscribeStatistics_list (snd (subscribe_add matrix init_db)) ''tv'' 1 30 =
      Inr [SubscribeStatistic.extend matrix (SubscribeStatistics.fields 1 None 1)]"
    by (simp add: SubscribeStatistics_list_def matrix_def store_defs)
  show ?thesis
    using t s0 e l p
      empty_result_is_reloaded [OF t, where d = init_db and now = 0 and stype = "''tv''"
        and page = 1 and cnt = 30]
    by simp
qed

section \<open>Facts about capacity\<close>

lemma insert_all_snoc:
  "insert_all (ins @ [i]) c = Cache_set (insert_all ins c) (snd (snd i)) (fst i) (fst (snd i))"
  by (simp add: insert_all_def case_prod_beta)

lemma ttl_insert_all [simp]: "ttl (insert_all ins c) = ttl c"
  by (induction ins rule: rev_induct) (simp_all add: insert_all_snoc, simp add: insert_all_def)

lemma maxsize_insert_all [simp]: "maxsize (insert_all ins c) = maxsize c"
  by (induction ins rule: rev_induct) (simp_all add: insert_all_snoc, simp add: insert_all_def)

lemma fst_stamp [simp]: "fst (stamp t i) = fst i"
  by (simp add: stamp_def)

lemma insert_all_below_capacity:
  assumes "distinct (map fst ins)" and "length ins \<le> m"
  shows "entries (insert_all ins (Cache m t)) = map (stamp t) ins"
  using assms
proof (induction ins rule: rev_induct)
  case Nil
  then show ?case by (simp add: insert_all_def Cache_def)
next
  case (snoc i ins)
  then have e: "entries (insert_all ins (Cache m t)) = map (stamp t) ins"
    and new: "fst i \<notin> fst ` set ins" and room: "length ins < m"
    by auto
  have "fst ` set (map (stamp t) ins) = fst ` set ins"
    by (simp add: image_image)
  then show ?case
    using e new room
    by (simp add: insert_all_snoc Cache_set_def Let_def Cache_def stamp_def)
qed

lemma insert_all_one_more:
  assumes "0 < m" and "distinct (map fst ins)" and "length ins = Suc m"
  shows "entries (insert_all ins (Cache m t)) = tl (map (stamp t) ins)"
proof -
  obtain xs i where ins: "ins = xs @ [i]"
    using assms(3) by (cases ins rule: rev_cases) auto
  then have len: "length xs = m" and d: "distinct (map fst xs)" and new: "fst i \<notin> fst ` set xs"
    using assms by auto
  have e: "entries (insert_all xs (Cache m t)) = map (stamp t) xs"
    using d len by (simp add: insert_all_below_capacity)
  have k: "fst ` set (map (stamp t) xs) = fst ` set xs"
    by (simp add: image_image)
  have "xs \<noteq> []" using len assms(1) by auto
  then show ?thesis
    using e new len k
    by (simp add: ins insert_all_snoc Cache_set_def Let_def Cache_def stamp_def)
qed


lemma live_keys_stamped:
  assumes "\<forall>i\<in>set ins. now < snd (snd i) + t"
  shows "map fst (filter (\<lambda>e. now < snd (snd e)) (map (stamp t) ins)) = map fst ins"
  using assms by (induction ins) (simp_all add: stamp_def)

text \<open>
  Claim C9. Inserting \<open>capacity + 1\<close> distinct keys into a fresh cache of positive
  capacity leaves exactly \<open>capacity\<close> entries: before the last insertion the cache holds
  the first \<open>capacity\<close> keys, oldest first; the last insertion evicts the first key
  inserted, the least recently used one, and the others stay, all of them live as long
  as none has reached its expiry.
\<close>

theorem capacity_boundary:
  assumes "0 < m" and "distinct (map fst ins)" and "length ins = Suc m"
  shows "map fst (entries (insert_all (butlast ins) (Cache m t))) = butlast (map fst ins) \<and>
         map fst (entries (insert_all ins (Cache m t))) = tl (map fst ins) \<and>
         length (entries (insert_all ins (Cache m t))) = m \<and>
         fst (hd ins) \<notin> fst ` set (entries (insert_all ins (Cache m t))) \<and>
         ((\<forall>i\<in>set (tl ins). now < snd (snd i) + t) \<longrightarrow>
            live_keys (insert_all ins (Cache m t)) now = tl (map fst ins))"
proof -
  have e: "entries (insert_all ins (Cache m t)) = tl (map (stamp t) ins)"
    using assms by (rule insert_all_one_more)
  have b: "entries (insert_all (butlast ins) (Cache m t)) = map (stamp t) (butlast ins)"
    using assms(2,3) by (intro insert_all_below_capacity) (simp_all add: map_butlast distinct_butlast)
  have k: "map fst (tl (map (stamp t) ins)) = tl (map fst ins)"
    by (simp add: map_tl comp_def)
  obtain i rest where ins: "ins = i # rest"
    using assms(3) by (cases ins) auto
  have "entries (insert_all ins (Cache m t)) = map (stamp t) rest"
    using e by (simp add: ins)
  then have out: "fst (hd ins) \<notin> fst ` set (entries (insert_all ins (Cache m t)))"
    using assms(2) by (simp add: ins image_image)
  have l: "live_keys (insert_all ins (Cache m t)) now = tl (map fst ins)"
    if "\<forall>i\<in>set (tl ins). now < snd (snd i) + t"
    using that live_keys_stamped [of "tl ins" now t]
    by (simp add: live_keys_def e map_tl)
  show ?thesis
    using e b k out l assms(3) by (simp add: map_butlast comp_def)
qed

theorem capacity_boundary_witness:
  "(0::nat) < 2 \<and>
   distinct (map fst [(''a'', JInt 1, 0::int), (''b'', JInt 2, 10), (''c'', JInt 3, 20)]) \<and>
   length [(''a'', JInt 1, 0::int), (''b'', JInt 2, 10), (''c'', JInt 3, 20)] = Suc 2 \<and>
   map fst (entries (insert_all [(''a'', JInt 1, 0), (''b'', JInt 2, 10), (''c'', JInt 3, 20)]
     (Cache 2 1800))) = [''b'', ''c''] \<and>
   live_keys (insert_all [(''a'', JInt 1, 0), (''b'', JInt 2, 10), (''c'', JInt 3, 20)]
     (Cache 2 1800)) 30 = [''b'', ''c'']"
proof -
  let ?ins = "[(''a'', JInt 1, 0::int), (''b'', JInt 2, 10), (''c'', JInt 3, 20)]"
  have h: "(0::nat) < 2" "distinct (map fst ?ins)" "length ?ins = Suc 2"
    by simp_all
  show ?thesis
    using h capacity_boundary [OF h, where now = 30 and t = 1800] by simp
qed


section \<open>Facts about cache keys and the listing\<close>

lemma digit_val_nth: "k < 10 \<Longrightarrow> digit_val (''0123456789'' ! k) = k"
  by (auto simp: digit_val_def less_Suc_eq numeral_eq_Suc)

lemma nat_of_str_snoc: "nat_of_str (s @ [ch]) = 10 * nat_of_str s + digit_val ch"
  by (simp add: nat_of_str_def)

lemma nat_of_str_str_nat: "nat_of_str (str_nat n) = n"
proof (induction n rule: str_nat.induct)
  case (1 n)
  show ?case
  proof (cases "n < 10")
    case True
    then have "str_nat n = [''0123456789'' ! n]" by (subst str_nat.simps) simp
    then show ?thesis using True by (simp add: nat_of_str_def digit_val_nth)
  next
    case False
    then have "str_nat n = str_nat (n div 10) @ [''0123456789'' ! (n mod 10)]"
      by (subst str_nat.simps) simp
    then show ?thesis
      using False 1 by (simp add: nat_of_str_snoc digit_val_nth)
  qed
qed

lemma str_nat_inject: "str_nat n = str_nat m \<Longrightarrow> n = m"
  by (metis nat_of_str_str_nat)

lemma set_str_nat: "set (str_nat n) \<subseteq> set ''0123456789''"
proof (induction n rule: str_nat.induct)
  case (1 n)
  have d: "''0123456789'' ! k \<in> set ''0123456789''" if "k < 10" for k
    using that nth_mem [of k "''0123456789''"] by simp
  show ?case
  proof (cases "n < 10")
    case True
    then have "str_nat n = [''0123456789'' ! n]" by (subst str_nat.simps) simp
    then show ?thesis using d [OF True] by simp
  next
    case False
    then have "str_nat n = str_nat (n div 10) @ [''0123456789'' ! (n mod 10)]"
      by (subst str_nat.simps) simp
    then show ?thesis
      using False 1 d [of "n mod 10"] by simp
  qed
qed

lemma str_nat_no_minus: "CHR ''-'' \<notin> set (str_nat n)"
  using set_str_nat [of n] by auto

lemma str_nat_no_underscore: "CHR ''_'' \<notin> set (str_nat n)"
  using set_str_nat [of n] by auto

lemma str_nat_not_minus: "str_nat n \<noteq> CHR ''-'' # s"
  using str_nat_no_minus [of n] by auto

lemma str_int_inject:
  assumes "str_int i = str_int j"
  shows "i = j"
proof (cases "i < 0")
  case True
  note i = this
  show ?thesis
  proof (cases "j < 0")
    case True
    then have "str_nat (nat (- i)) = str_nat (nat (- j))"
      using assms i by (simp add: str_int_def)
    then have "nat (- i) = nat (- j)" by (rule str_nat_inject)
    then show ?thesis using i True by simp
  next
    case False
    then have "str_nat (nat j) = CHR ''-'' # str_nat (nat (- i))"
      using assms i by (simp add: str_int_def)
    then show ?thesis using str_nat_not_minus by blast
  qed
next
  case False
  note i = this
  show ?thesis
  proof (cases "j < 0")
    case True
    then have "str_nat (nat i) = CHR ''-'' # str_nat (nat (- j))"
      using assms i by (simp add: str_int_def)
    then show ?thesis using str_nat_not_minus by blast
  next
    case False
    then have "str_nat (nat i) = str_nat (nat j)"
      using assms i by (simp add: str_int_def)
    then have "nat i = nat j" by (rule str_nat_inject)
    then show ?thesis using i False by simp
  qed
qed

lemma str_int_no_underscore: "CHR ''_'' \<notin> set (str_int i)"
  by (simp add: str_int_def str_nat_no_underscore)

lemma append_sep_inject:
  "x \<notin> set a \<Longrightarrow> x \<notin> set a' \<Longrightarrow> a @ x # b = a' @ x # b' \<Longrightarrow> a = a' \<and> b = b'"
proof (induction a arbitrary: a')
  case Nil
  then show ?case by (cases a') auto
next
  case (Cons y a)
  then show ?case by (cases a') auto
qed

lemma append_sep_inject_right:
  assumes "x \<notin> set c" and "x \<notin> set c'" and "a @ x # c = a' @ x # c'"
  shows "a = a' \<and> c = c'"
proof -
  have "rev (a @ x # c) = rev (a' @ x # c')" using assms(3) by simp
  then have "rev c @ x # rev a = rev c' @ x # rev a'" by simp
  then have "rev c = rev c' \<and> rev a = rev a'"
    using assms(1,2) by (intro append_sep_inject) simp_all
  then show ?thesis by simp
qed

lemma cache_key_inject:
  assumes "cache_key s p n = cache_key s' p' n'"
  shows "s = s' \<and> p = p' \<and> n = n'"
proof -
  have "(''subscribe_'' @ s @ ''_'' @ str_int p) @ CHR ''_'' # str_int n =
        (''subscribe_'' @ s' @ ''_'' @ str_int p') @ CHR ''_'' # str_int n'"
    using assms by (simp add: cache_key_def)
  then have 1: "''subscribe_'' @ s @ ''_'' @ str_int p = ''subscribe_'' @ s' @ ''_'' @ str_int p'"
    and n: "str_int n = str_int n'"
    using append_sep_inject_right [OF str_int_no_underscore str_int_no_underscore] by blast+
  from 1 have "s @ CHR ''_'' # str_int p = s' @ CHR ''_'' # str_int p'" by simp
  then have "s = s'" and "str_int p = str_int p'"
    using append_sep_inject_right [OF str_int_no_underscore str_int_no_underscore] by blast+
  then show ?thesis using n by (simp add: str_int_inject)
qed

lemma cache_key_not_plugin: "cache_key s p n \<noteq> ''plugin''"
  by (simp add: cache_key_def)


lemma find_mem: "find P xs = Some x \<Longrightarrow> x \<in> set xs"
  by (induction xs) (auto split: if_splits)

lemma keys_Cache_get:
  "fst ` set (entries (snd (Cache_get c now k))) \<subseteq> fst ` set (entries c)"
proof (cases "find (\<lambda>e. fst e = k) (entries c)")
  case None
  then show ?thesis by (simp add: Cache_get_def)
next
  case (Some x)
  obtain k' v e where x: "x = (k', v, e)" by (cases x)
  have "(k', v, e) \<in> set (entries c)" and "k' = k"
    using Some x find_mem [of "\<lambda>e. fst e = k" "entries c" x]
      find_holds [of "\<lambda>e. fst e = k" "entries c" x] by auto
  then have "k \<in> fst ` set (entries c)" by force
  then show ?thesis
    using Some x by (auto simp: Cache_get_def)
qed

lemma keys_Cache_set:
  "fst ` set (entries (Cache_set c now k v)) \<subseteq> insert k (fst ` set (entries c))"
proof -
  have "set (tl (entries c)) \<subseteq> set (entries c)"
    by (cases "entries c") auto
  then show ?thesis
    by (auto simp: Cache_set_def Let_def)
qed

lemma cache_validD:
  "cache_valid c \<Longrightarrow> page \<le> 0 \<or> cnt \<le> 0 \<Longrightarrow>
   cache_key stype page cnt \<notin> fst ` set (entries c)"
  unfolding cache_valid_def by blast

lemma cache_validI:
  assumes "\<And>stype page cnt. page \<le> 0 \<or> cnt \<le> 0 \<Longrightarrow>
             cache_key stype page cnt \<notin> fst ` set (entries c)"
  shows "cache_valid c"
  unfolding cache_valid_def using assms by blast

lemma cache_valid_StatisticCache: "cache_valid StatisticCache"
  by (simp add: cache_valid_def StatisticCache_def Cache_def)

lemma cache_valid_Cache_get:
  assumes "cache_valid c"
  shows "cache_valid (snd (Cache_get c now k))"
proof (rule cache_validI)
  fix stype page cnt
  assume "page \<le> (0::int) \<or> cnt \<le> (0::int)"
  then have "cache_key stype page cnt \<notin> fst ` set (entries c)"
    using assms by (rule cache_validD [rotated])
  then show "cache_key stype page cnt \<notin> fst ` set (entries (snd (Cache_get c now k)))"
    using keys_Cache_get [of c now k] by blast
qed

lemma cache_valid_Cache_set:
  assumes "cache_valid c" and "\<And>s p n. p \<le> 0 \<or> n \<le> 0 \<Longrightarrow> k \<noteq> cache_key s p n"
  shows "cache_valid (Cache_set c now k v)"
proof (rule cache_validI)
  fix stype page cnt
  assume b: "page \<le> (0::int) \<or> cnt \<le> (0::int)"
  then have "cache_key stype page cnt \<notin> fst ` set (entries c)"
    using assms(1) by (rule cache_validD [rotated])
  moreover have "cache_key stype page cnt \<noteq> k"
    using assms(2) [OF b, of stype] by simp
  ultimately show "cache_key stype page cnt \<notin> fst ` set (entries (Cache_set c now k v))"
    using keys_Cache_set [of c now k v] by blast
qed

lemma cache_valid_plugin_statistic:
  assumes "cache_valid c"
  shows "cache_valid (snd (plugin_statistic d c now))"
proof -
  have p: "''plugin'' \<noteq> cache_key s p n" for s p n
    using cache_key_not_plugin [of s p n] by simp
  show ?thesis
    using assms p
    by (simp add: plugin_statistic_def case_prod_beta Let_def cache_valid_Cache_get
        cache_valid_Cache_set)
qed

lemma cache_valid_subscribe_statistic:
  assumes "cache_valid c"
  shows "cache_valid (snd (subscribe_statistic stype page cnt d c now))"
proof (cases "0 < page \<and> 0 < cnt")
  case True
  then have "cache_key stype page cnt \<noteq> cache_key s p n" if "p \<le> 0 \<or> n \<le> 0" for s p n
    using that cache_key_inject [of stype page cnt s p n] by auto
  then show ?thesis
    using assms
    by (simp add: subscribe_statistic_def case_prod_beta Let_def cache_valid_Cache_get
        cache_valid_Cache_set split: sum.splits)
next
  case False
  then have "SubscribeStatistics_list d stype page cnt = Inl InvalidPagination"
    by (auto simp: SubscribeStatistics_list_def)
  then show ?thesis
    using assms
    by (simp add: subscribe_statistic_def case_prod_beta Let_def cache_valid_Cache_get)
qed

lemma cache_valid_not_served:
  assumes "cache_valid c" and "page \<le> 0 \<or> cnt \<le> 0"
  shows "\<not> served c now (cache_key stype page cnt)"
proof -
  have "cache_key stype page cnt \<notin> fst ` set (entries c)"
    using assms by (rule cache_validD)
  then have "stored c (cache_key stype page cnt) = None"
    by (simp add: stored_def find_key_absent)
  then show ?thesis by (rule not_served_absent)
qed

lemma sorted_page:
  "sorted (map sid (take n (drop m (filter P (sort_key sid rs)))))"
proof -
  have "sorted (map sid (filter P (sort_key sid rs)))"
    by (intro sorted_filter) simp
  then have "sorted (take n (drop m (map sid (filter P (sort_key sid rs)))))"
    by (intro sorted_wrt_take sorted_wrt_drop)
  then show ?thesis by (simp add: take_map drop_map)
qed

lemma wf_db_sort_key: "wf_db d \<Longrightarrow> sort_key sid (subscribes d) = subscribes d"
  by (simp add: wf_db_def sort_key_id_if_sorted)


lemma list_invalid:
  "page \<le> 0 \<or> cnt \<le> 0 \<Longrightarrow> SubscribeStatistics_list d stype page cnt = Inl InvalidPagination"
  by (auto simp: SubscribeStatistics_list_def)

lemma list_valid:
  "0 < page \<Longrightarrow> 0 < cnt \<Longrightarrow>
   SubscribeStatistics_list d stype page cnt =
     Inr (take (nat cnt) (drop (nat ((page - 1) * cnt))
            (filter (\<lambda>r. type r = Some stype) (sort_key sid (subscribes d)))))"
  by (simp add: SubscribeStatistics_list_def)

text \<open>
  Claim C7. The listing fails with \<open>InvalidPagination\<close> when the page or the page size is
  not positive, and so does \<^verbatim>\<open>subscribe_statistic\<close> on every cache without entries under
  such keys, which the endpoints never create. For positive arguments the listing returns
  a page of at most \<open>pageSize\<close> rows of the requested type in primary-key order, which is
  the insertion order of the table; the endpoint returns that page whenever it consults
  the store.
\<close>

theorem list_subscribes_pagination:
  assumes "cache_valid c"
  shows "(page \<le> 0 \<or> cnt \<le> 0 \<longrightarrow>
            SubscribeStatistics_list d stype page cnt = Inl InvalidPagination \<and>
            fst (subscribe_statistic stype page cnt d c now) = Inl InvalidPagination) \<and>
         (0 < page \<and> 0 < cnt \<longrightarrow>
            (\<exists>rows. SubscribeStatistics_list d stype page cnt = Inr rows \<and>
               sorted (map sid rows) \<and> length rows \<le> nat cnt \<and>
               set rows \<subseteq> {r \<in> set (subscribes d). type r = Some stype} \<and>
               (wf_db d \<longrightarrow>
                  rows = take (nat cnt) (drop (nat ((page - 1) * cnt))
                           (filter (\<lambda>r. type r = Some stype) (subscribes d)))) \<and>
               (0 < ttl c \<and> \<not> served c now (cache_key stype page cnt) \<longrightarrow>
                  fst (subscribe_statistic stype page cnt d c now) =
                    Inr (JList (map subscribe_dict rows))))) \<and>
         cache_valid (snd (subscribe_statistic stype page cnt d c now)) \<and>
         cache_valid (snd (plugin_statistic d c now))"
proof (intro conjI impI)
  assume b: "page \<le> 0 \<or> cnt \<le> 0"
  then show l: "SubscribeStatistics_list d stype page cnt = Inl InvalidPagination"
    by (rule list_invalid)
  have "\<not> served c now (cache_key stype page cnt)"
    using assms b by (rule cache_valid_not_served)
  then show "fst (subscribe_statistic stype page cnt d c now) = Inl InvalidPagination"
    using l by (rule subscribe_statistic_fails)
next
  assume v: "0 < page \<and> 0 < cnt"
  let ?all = "filter (\<lambda>r. type r = Some stype) (sort_key sid (subscribes d))"
  let ?rows = "take (nat cnt) (drop (nat ((page - 1) * cnt)) ?all)"
  have l: "SubscribeStatistics_list d stype page cnt = Inr ?rows"
    using v by (simp add: list_valid)
  have s: "sorted (map sid ?rows)" by (rule sorted_page)
  have n: "length ?rows \<le> nat cnt" by simp
  have "set ?rows \<subseteq> set ?all"
    by (meson set_take_subset set_drop_subset subset_trans)
  then have m: "set ?rows \<subseteq> {r \<in> set (subscribes d). type r = Some stype}" by auto
  have w: "?rows = take (nat cnt) (drop (nat ((page - 1) * cnt))
                     (filter (\<lambda>r. type r = Some stype) (subscribes d)))" if "wf_db d"
    using that by (simp add: wf_db_sort_key)
  have e: "fst (subscribe_statistic stype page cnt d c now) = Inr (JList (map subscribe_dict ?rows))"
    if "0 < ttl c \<and> \<not> served c now (cache_key stype page cnt)"
    using that l subscribe_statistic_loads(1) [of c now stype page cnt d ?rows] by simp
  show "\<exists>rows. SubscribeStatistics_list d stype page cnt = Inr rows \<and>
               sorted (map sid rows) \<and> length rows \<le> nat cnt \<and>
               set rows \<subseteq> {r \<in> set (subscribes d). type r = Some stype} \<and>
               (wf_db d \<longrightarrow>
                  rows = take (nat cnt) (drop (nat ((page - 1) * cnt))
                           (filter (\<lambda>r. type r = Some stype) (subscribes d)))) \<and>
               (0 < ttl c \<and> \<not> served c now (cache_key stype page cnt) \<longrightarrow>
                  fst (subscribe_statistic stype page cnt d c now) =
                    Inr (JList (map subscribe_dict rows)))"
    using l s n m w e by blast
next
  show "cache_valid (snd (subscribe_statistic stype page cnt d c now))"
    using assms by (rule cache_valid_subscribe_statistic)
  show "cache_valid (snd (plugin_statistic d c now))"
    using assms by (rule cache_valid_plugin_statistic)
qed

theorem list_subscribes_pagination_witness:
  "cache_valid StatisticCache \<and>
   wf_db (snd (subscribe_add matrix init_db)) \<and>
   fst (subscribe_statistic ''tv'' 0 30 (snd (subscribe_add matrix init_db)) StatisticCache 0) =
     Inl InvalidPagination \<and>
   SubscribeStatistics_list (snd (subscribe_add matrix init_db)) ''tv'' 1 30 =
     Inr [SubscribeStatistic.extend matrix (SubscribeStatistics.fields 1 None 1)] \<and>
   fst (subscribe_statistic ''tv'' 1 30 (snd (subscribe_add matrix init_db)) StatisticCache 0) =
     Inr (JList [subscribe_dict
       (SubscribeStatistic.extend matrix (SubscribeStatistics.fields 1 None 1))])"
proof -
  let ?d = "snd (subscribe_add matrix init_db)"
  have v: "cache_valid StatisticCache" by (rule cache_valid_StatisticCache)
  have w: "wf_db ?d" by (rule wf_db_subscribe_add [OF wf_db_init])
  have t: "0 < ttl StatisticCache" "\<not> served StatisticCache 0 (cache_key ''tv'' 1 30)"
    by (simp_all add: StatisticCache_def Cache_def served_def stored_def)
  have r: "take (nat 30) (drop (nat ((1 - 1) * 30))
             (filter (\<lambda>r. type r = Some ''tv'') (subscribes ?d))) =
           [SubscribeStatistic.extend matrix (SubscribeStatistics.fields 1 None 1)]"
    by (simp add: matrix_def store_defs)
  show ?thesis
    using v w t r
      list_subscribes_pagination [OF v, of 0 30 ?d "''tv''" 0]
      list_subscribes_pagination [OF v, of 1 30 ?d "''tv''" 0]
    by auto
qed


end
